theory Spec2Isabelle
  imports Main "HOL-Library.Sublist" "HOL-Library.Multiset"
begin

section \<open>Strings and numbers\<close>

text \<open>
  Go strings are byte sequences; they are modelled as \<^typ>\<open>string\<close> (a list of 8-bit
  characters).  Go's \<^verbatim>\<open>int\<close> is taken to be 64 bits wide (the platforms goenv installs
  toolchains for); values are HOL integers and the places where the width matters
  (\<^verbatim>\<open>strconv.Atoi\<close> on an overlong numeral, the arithmetic of the year estimate) have
  the range written out.
\<close>

definition MaxInt :: int where
  "MaxInt = 9223372036854775807"

definition MinInt :: int where
  "MinInt = - 9223372036854775808"

text \<open>The value a 64-bit signed register holds after an operation whose exact result is \<open>x\<close>.\<close>

definition wrap64 :: "int \<Rightarrow> int" where
  "wrap64 x = (x + 9223372036854775808) mod 18446744073709551616 - 9223372036854775808"

text \<open>Go's integer division truncates towards zero.\<close>

definition go_div :: "int \<Rightarrow> int \<Rightarrow> int" where
  "go_div a b = sgn a * sgn b * (\<bar>a\<bar> div \<bar>b\<bar>)"

text \<open>The regular expression class \<^verbatim>\<open>\d\<close> of Go's RE2 syntax: the ASCII digits only.\<close>

definition is_digit :: "char \<Rightarrow> bool" where
  "is_digit c = (c \<in> set ''0123456789'')"

definition digit_val :: "char \<Rightarrow> int" where
  "digit_val c = of_char c - 48"

definition digits_val :: "string \<Rightarrow> int" where
  "digits_val s = foldl (\<lambda>a c. 10 * a + digit_val c) 0 s"

text \<open>
  \<^verbatim>\<open>strconv.Atoi\<close> with its error dropped, as every call site does
  (\<^verbatim>\<open>major, _ := strconv.Atoi(matches[1])\<close>): an optional sign, then decimal digits;
  a syntax error yields 0, a value out of range yields the nearest bound of \<^verbatim>\<open>int\<close>.
\<close>

definition Atoi :: "string \<Rightarrow> int" where
  "Atoi s =
     (let neg = (s \<noteq> [] \<and> hd s = CHR ''-'');
          body = (if s \<noteq> [] \<and> (hd s = CHR ''-'' \<or> hd s = CHR ''+'') then tl s else s)
      in if body = [] \<or> \<not> list_all is_digit body then 0
         else if neg then max MinInt (- digits_val body)
         else min MaxInt (digits_val body))"

text \<open>\<^verbatim>\<open>fmt.Sprintf("%d", n)\<close>.\<close>

definition digit_char :: "nat \<Rightarrow> char" where
  "digit_char n = ''0123456789'' ! n"

fun nat_digits :: "nat \<Rightarrow> string" where
  "nat_digits n = (if n < 10 then [digit_char n] else nat_digits (n div 10) @ [digit_char (n mod 10)])"

declare nat_digits.simps [simp del]

definition itoa :: "int \<Rightarrow> string" where
  "itoa n = (if n < 0 then CHR ''-'' # nat_digits (nat (- n)) else nat_digits (nat n))"

section \<open>The version model (package version)\<close>

record Version =
  Tag :: string
  Major :: int
  Minor :: int
  Patch :: int
  RC :: int
  FullVersion :: string
  IsRC :: bool
  FetchedAt :: int

record VersionGroup =
  MajorMinor :: string
  Versions :: "Version list"

datatype error =
  InvalidFormat string
  | NilDereference

subsection \<open>The tag pattern\<close>

text \<open>
  \<^verbatim>\<open>versionRegex = ^go(\d+)\.(\d+)(?:\.(\d+))?(?:rc(\d+))?$\<close>

  The pattern is matched from left to right by the three pieces below.  A digit, the
  full stop and the letter r exclude each other, so a greedy \<^verbatim>\<open>\d+\<close> never has to give
  a digit back, and an optional group that can match must match: the leftmost-first
  search of the regexp package has one way through the pattern at most.
\<close>

definition lit :: "string \<Rightarrow> string \<Rightarrow> string option" where
  "lit p s = (if take (length p) s = p then Some (drop (length p) s) else None)"

definition digits1 :: "string \<Rightarrow> (string \<times> string) option" where
  "digits1 s =
     (let d = takeWhile is_digit s
      in if d = [] then None else Some (d, dropWhile is_digit s))"

text \<open>
  \<^verbatim>\<open>(?:p(\d+))?\<close>: the capture and the rest of the input; a group that does not take
  part leaves the input where it is and reports the empty string, as
  \<^verbatim>\<open>FindStringSubmatch\<close> does.
\<close>

definition opt_group :: "string \<Rightarrow> string \<Rightarrow> string \<times> string" where
  "opt_group p s =
     (case lit p s of
        None \<Rightarrow> ([], s)
      | Some t \<Rightarrow> (case digits1 t of None \<Rightarrow> ([], s) | Some (d, r) \<Rightarrow> (d, r)))"

text \<open>\<^verbatim>\<open>versionRegex.FindStringSubmatch(tag)\<close>: \<open>None\<close> is Go's nil.\<close>

definition FindStringSubmatch :: "string \<Rightarrow> string list option" where
  "FindStringSubmatch tag =
     (case lit ''go'' tag of
        None \<Rightarrow> None
      | Some s1 \<Rightarrow>
          (case digits1 s1 of
             None \<Rightarrow> None
           | Some (m1, s2) \<Rightarrow>
               (case lit ''.'' s2 of
                  None \<Rightarrow> None
                | Some s3 \<Rightarrow>
                    (case digits1 s3 of
                       None \<Rightarrow> None
                     | Some (m2, s4) \<Rightarrow>
                         (case opt_group ''.'' s4 of
                            (m3, s5) \<Rightarrow>
                              (case opt_group ''rc'' s5 of
                                 (m4, s6) \<Rightarrow>
                                   if s6 = [] then Some [tag, m1, m2, m3, m4] else None))))))"

subsection \<open>ParseVersion, GetMajorMinor, Compare\<close>

definition ParseVersion :: "string \<Rightarrow> error + Version" where
  "ParseVersion tag =
     (case FindStringSubmatch tag of
        None \<Rightarrow> Inl (InvalidFormat tag)
      | Some matches \<Rightarrow>
          (let major = Atoi (matches ! 1);
               minor = Atoi (matches ! 2);
               patch = (if matches ! 3 \<noteq> [] then Atoi (matches ! 3) else 0);
               rc = (if matches ! 4 \<noteq> [] then Atoi (matches ! 4) else 0);
               isRC = (matches ! 4 \<noteq> []);
               fullVersion = itoa major @ ''.'' @ itoa minor;
               fullVersion = (if patch > 0 then fullVersion @ ''.'' @ itoa patch else fullVersion);
               fullVersion = (if isRC then fullVersion @ ''rc'' @ itoa rc else fullVersion)
           in Inr \<lparr>Tag = tag, Major = major, Minor = minor, Patch = patch, RC = rc,
                  FullVersion = fullVersion, IsRC = isRC, FetchedAt = 0\<rparr>))"

definition GetMajorMinor :: "Version \<Rightarrow> string" where
  "GetMajorMinor v = itoa (Major v) @ ''.'' @ itoa (Minor v)"

definition Compare :: "Version \<Rightarrow> Version \<Rightarrow> int" where
  "Compare v other =
     (if Major v \<noteq> Major other then (if Major v < Major other then - 1 else 1)
      else if Minor v \<noteq> Minor other then (if Minor v < Minor other then - 1 else 1)
      else if Patch v \<noteq> Patch other then (if Patch v < Patch other then - 1 else 1)
      else if IsRC v \<and> \<not> IsRC other then - 1
      else if \<not> IsRC v \<and> IsRC other then 1
      else if IsRC v \<and> IsRC other then
        (if RC v < RC other then - 1 else if RC v > RC other then 1 else 0)
      else 0)"

subsection \<open>GroupVersions\<close>

text \<open>
  Both sorts of \<^verbatim>\<open>GroupVersions\<close> are the same pair of loops:
  \<^verbatim>\<open>for i := 0; i < len(xs)-1; i++ { for j := i + 1; j < len(xs); j++ {
       if xs[i] > xs[j] { xs[i], xs[j] = xs[j], xs[i] } } }\<close>
  \<open>sort_inner\<close> is the loop over \<open>j\<close>, \<open>sort_outer\<close> the loop over \<open>i\<close>; \<open>gt\<close> is the
  test of the \<^verbatim>\<open>if\<close>.  The indices stay in range, \<open>i < j < length xs\<close>, wherever an
  element is read.  (\<open>i + 1 < length xs\<close> is \<^verbatim>\<open>i < len(xs)-1\<close> on Go's signed \<^verbatim>\<open>int\<close>.)
\<close>

function sort_inner :: "('a \<Rightarrow> 'a \<Rightarrow> bool) \<Rightarrow> nat \<Rightarrow> nat \<Rightarrow> 'a list \<Rightarrow> 'a list" where
  "sort_inner gt i j xs =
     (if j < length xs
      then sort_inner gt i (j + 1)
             (if gt (xs ! i) (xs ! j) then xs[i := xs ! j, j := xs ! i] else xs)
      else xs)"
  by pat_completeness auto
termination
  by (relation "measure (\<lambda>(gt, i, j, xs). length xs - j)") auto

declare sort_inner.simps [simp del]

function sort_outer :: "('a \<Rightarrow> 'a \<Rightarrow> bool) \<Rightarrow> nat \<Rightarrow> 'a list \<Rightarrow> 'a list" where
  "sort_outer gt i xs =
     (if i + 1 < length xs then sort_outer gt (i + 1) (sort_inner gt i (i + 1) xs) else xs)"
  by pat_completeness auto
termination
proof (relation "measure (\<lambda>(gt, i, xs). length xs - i)")
  show "wf (measure (\<lambda>(gt :: 'a \<Rightarrow> 'a \<Rightarrow> bool, i, xs :: 'a list). length xs - i))"
    by simp
next
  fix gt :: "'a \<Rightarrow> 'a \<Rightarrow> bool" and i :: nat and xs :: "'a list"
  assume i: "i + 1 < length xs"
  have "length (sort_inner gt k j ys) = length ys" for k j and ys :: "'a list"
    by (induction gt k j ys rule: sort_inner.induct) (subst sort_inner.simps, simp)
  then show "((gt, i + 1, sort_inner gt i (i + 1) xs), (gt, i, xs))
      \<in> measure (\<lambda>(gt, i, xs). length xs - i)"
    using i by simp
qed

declare sort_outer.simps [simp del]

text \<open>
  The test of the group sort parses both keys and drops the errors:
  \<^verbatim>\<open>v1, _ := ParseVersion("go" + result[i].MajorMinor + ".0")\<close>, the same for \<open>v2\<close>, then
  \<^verbatim>\<open>v1.Compare(v2) > 0\<close>.  A key that does not parse leaves a nil pointer, and
  \<open>Compare\<close> reads a field of it: the program panics.
\<close>

definition group_greater :: "VersionGroup \<Rightarrow> VersionGroup \<Rightarrow> error + bool" where
  "group_greater g h =
     (case ParseVersion (''go'' @ MajorMinor g @ ''.0'') of
        Inl _ \<Rightarrow> Inl NilDereference
      | Inr v1 \<Rightarrow>
          (case ParseVersion (''go'' @ MajorMinor h @ ''.0'') of
             Inl _ \<Rightarrow> Inl NilDereference
           | Inr v2 \<Rightarrow> Inr (Compare v1 v2 > 0)))"

function group_sort_inner :: "nat \<Rightarrow> nat \<Rightarrow> VersionGroup list \<Rightarrow> error + VersionGroup list" where
  "group_sort_inner i j result =
     (if j < length result
      then (case group_greater (result ! i) (result ! j) of
              Inl e \<Rightarrow> Inl e
            | Inr b \<Rightarrow>
                group_sort_inner i (j + 1)
                  (if b then result[i := result ! j, j := result ! i] else result))
      else Inr result)"
  by pat_completeness auto
termination
  by (relation "measure (\<lambda>(i, j, result). length result - j)") auto

declare group_sort_inner.simps [simp del]

function group_sort_outer :: "nat \<Rightarrow> VersionGroup list \<Rightarrow> error + VersionGroup list" where
  "group_sort_outer i result =
     (if i + 1 < length result
      then (case group_sort_inner i (i + 1) result of
              Inl e \<Rightarrow> Inl e
            | Inr r \<Rightarrow> group_sort_outer (i + 1) r)
      else Inr result)"
  by pat_completeness auto
termination
proof (relation "measure (\<lambda>(i, result). length result - i)")
  show "wf (measure (\<lambda>(i, result :: VersionGroup list). length result - i))"
    by simp
next
  fix i :: nat and result r :: "VersionGroup list"
  assume i: "i + 1 < length result" and r: "group_sort_inner i (i + 1) result = Inr r"
  have "length r' = length xs" if "group_sort_inner k j xs = Inr r'" for k j xs r'
    using that
  proof (induction k j xs rule: group_sort_inner.induct)
    case (1 k j xs)
    from "1.prems" show ?case
      by (subst (asm) group_sort_inner.simps) (auto split: if_splits sum.splits dest: "1.IH")
  qed
  from this [OF r] show "((i + 1, r), (i, result)) \<in> measure (\<lambda>(i, result). length result - i)"
    using i by simp
qed

declare group_sort_outer.simps [simp del]

text \<open>
  \<^verbatim>\<open>groups := make(map[string][]*Version)\<close> is a map from keys to lists; reading a key
  that is not there gives the nil slice.
\<close>

definition group_of :: "(string \<rightharpoonup> Version list) \<Rightarrow> string \<Rightarrow> Version list" where
  "group_of groups key = (case groups key of None \<Rightarrow> [] | Some vers \<Rightarrow> vers)"

definition add_to_group :: "(string \<rightharpoonup> Version list) \<Rightarrow> Version \<Rightarrow> (string \<rightharpoonup> Version list)" where
  "add_to_group groups v =
     (let key = GetMajorMinor v in groups(key \<mapsto> group_of groups key @ [v]))"

definition build_groups :: "Version list \<Rightarrow> (string \<rightharpoonup> Version list)" where
  "build_groups versions = foldl add_to_group Map.empty versions"

text \<open>
  \<^verbatim>\<open>for majorMinor, vers := range groups\<close> visits every key of the map once, in an order
  the language leaves open.  The order is a parameter of the model: any list \<open>order\<close>
  with \<open>iteration_order groups order\<close> is one the program may take.
\<close>

definition iteration_order :: "(string \<rightharpoonup> Version list) \<Rightarrow> string list \<Rightarrow> bool" where
  "iteration_order groups order = (distinct order \<and> set order = dom groups)"

definition GroupVersions :: "string list \<Rightarrow> Version list \<Rightarrow> error + VersionGroup list" where
  "GroupVersions order versions =
     (let groups = build_groups versions;
          result = map (\<lambda>majorMinor.
                     \<lparr>MajorMinor = majorMinor,
                      Versions = sort_outer (\<lambda>a b. Compare a b > 0) 0 (group_of groups majorMinor)\<rparr>)
                     order
      in group_sort_outer 0 result)"

subsection \<open>NormalizeVersion\<close>

text \<open>
  \<^verbatim>\<open>strings.TrimSpace\<close> removes the leading and the trailing white space, as
  \<^verbatim>\<open>unicode.IsSpace\<close> defines it, from the UTF-8 text.  \<open>white_space\<close> lists the
  encodings of these code points: U+0009 to U+000D, U+0020, U+0085, U+00A0, U+1680,
  U+2000 to U+200A, U+2028, U+2029, U+202F, U+205F, U+3000.  A byte that is not part of
  such an encoding stops the trimming (an invalid byte decodes to U+FFFD).
\<close>

definition white_space :: "string list" where
  "white_space =
     [[CHR 0x09], [CHR 0x0A], [CHR 0x0B], [CHR 0x0C], [CHR 0x0D], [CHR 0x20],
      [CHR 0xC2, CHR 0x85], [CHR 0xC2, CHR 0xA0], [CHR 0xE1, CHR 0x9A, CHR 0x80],
      [CHR 0xE2, CHR 0x80, CHR 0x80], [CHR 0xE2, CHR 0x80, CHR 0x81],
      [CHR 0xE2, CHR 0x80, CHR 0x82], [CHR 0xE2, CHR 0x80, CHR 0x83],
      [CHR 0xE2, CHR 0x80, CHR 0x84], [CHR 0xE2, CHR 0x80, CHR 0x85],
      [CHR 0xE2, CHR 0x80, CHR 0x86], [CHR 0xE2, CHR 0x80, CHR 0x87],
      [CHR 0xE2, CHR 0x80, CHR 0x88], [CHR 0xE2, CHR 0x80, CHR 0x89],
      [CHR 0xE2, CHR 0x80, CHR 0x8A], [CHR 0xE2, CHR 0x80, CHR 0xA8],
      [CHR 0xE2, CHR 0x80, CHR 0xA9], [CHR 0xE2, CHR 0x80, CHR 0xAF],
      [CHR 0xE2, CHR 0x81, CHR 0x9F], [CHR 0xE3, CHR 0x80, CHR 0x80]]"

text \<open>The width in bytes of the white space at the head of \<open>s\<close>, 0 when there is none.\<close>

definition space_width :: "string list \<Rightarrow> string \<Rightarrow> nat" where
  "space_width ws s = (case find (\<lambda>w. prefix w s) ws of None \<Rightarrow> 0 | Some w \<Rightarrow> length w)"

function trim_runes :: "string list \<Rightarrow> string \<Rightarrow> string" where
  "trim_runes ws s =
     (if s = [] \<or> space_width ws s = 0 then s else trim_runes ws (drop (space_width ws s) s))"
  by pat_completeness auto
termination
  by (relation "measure (\<lambda>(ws, s). length s)") auto

declare trim_runes.simps [simp del]

text \<open>The trailing white space is the leading white space of the reversed text.\<close>

definition TrimSpace :: "string \<Rightarrow> string" where
  "TrimSpace s = rev (trim_runes (map rev white_space) (rev (trim_runes white_space s)))"

definition NormalizeVersion :: "string \<Rightarrow> string" where
  "NormalizeVersion version =
     (let version = TrimSpace version
      in if \<not> prefix ''go'' version then ''go'' @ version else version)"

section \<open>The tag retrieval (package github)\<close>

record FetchOptions =
  MinVersion :: string
  MinYear :: int
  AllVersions :: bool

definition DefaultMinVersion :: string where
  "DefaultMinVersion = ''go1.10''"

type_synonym Option = "FetchOptions \<Rightarrow> FetchOptions"

definition WithMinVersion :: "string \<Rightarrow> Option" where
  "WithMinVersion v = (\<lambda>opts. opts\<lparr>MinVersion := v\<rparr>)"

definition WithMinYear :: "int \<Rightarrow> Option" where
  "WithMinYear year = (\<lambda>opts. opts\<lparr>MinYear := year\<rparr>)"

definition WithAllVersions :: Option where
  "WithAllVersions = (\<lambda>opts. opts\<lparr>AllVersions := True\<rparr>)"

subsection \<open>The endpoint\<close>

text \<open>
  \<^verbatim>\<open>client.Repositories.ListTags(ctx, "golang", "go", &gh.ListOptions{Page: page,
  PerPage: perPage})\<close> returns the tags of a page, the response and an error.  The code
  reads the names of the tags, of the response (which may be nil) its \<^verbatim>\<open>StatusCode\<close> and
  \<^verbatim>\<open>NextPage\<close>, and of the error whether it is a \<^verbatim>\<open>*gh.RateLimitError\<close>, a
  \<^verbatim>\<open>*gh.AbuseRateLimitError\<close> or anything else.

  The world outside the function is a record of two functions: \<open>ListTags e n page\<close> is
  the answer to the request number \<open>n\<close> (counted from 0) when it asks for \<open>page\<close>, and
  \<open>ctx_done e n\<close> says whether the overall deadline has passed when the loop checks it
  with \<open>n\<close> requests made.  \<^verbatim>\<open>perPage\<close> is the constant 100.
\<close>

datatype api_error = RateLimitError | AbuseRateLimitError | OtherError

record Response =
  StatusCode :: int
  NextPage :: int

datatype page_result =
  Failed api_error
  | Page "string list" "Response option"

record endpoint =
  ctx_done :: "nat \<Rightarrow> bool"
  ListTags :: "nat \<Rightarrow> int \<Rightarrow> page_result"

text \<open>
  The errors \<open>FetchTags\<close> returns, one constructor for each \<^verbatim>\<open>fmt.Errorf\<close> of the
  function, with the values the message is formatted from.  \<open>RequestFailed\<close> and
  \<open>BadStatus\<close> are the specification's \<open>TransportOrServerError\<close>.
\<close>

datatype fetch_error =
  InvalidMinVersion string error
  | Timeout
  | RateLimited
  | AbuseDetected
  | RequestFailed int
  | BadStatus int int

text \<open>
  What a call leaves behind: the two values it returns and the pages it has requested,
  in order.  Go's nil slice and the empty slice are both the empty list.
\<close>

record FetchResult =
  tags :: "string list"
  err :: "fetch_error option"
  requests :: "int list"

subsection \<open>The filters\<close>

text \<open>
  \<^verbatim>\<open>existingTags != nil && existingTags[tagName]\<close> on a \<^verbatim>\<open>map[string]bool\<close>: \<open>None\<close> is
  the nil map, and a key that is not in the map reads as false.
\<close>

definition known :: "(string \<rightharpoonup> bool) option \<Rightarrow> string \<Rightarrow> bool" where
  "known existingTags tagName =
     (case existingTags of
        None \<Rightarrow> False
      | Some m \<Rightarrow> (case m tagName of None \<Rightarrow> False | Some b \<Rightarrow> b))"

text \<open>\<^verbatim>\<open>estimatedYear := 2012 + (v.Major-1)*1 + (v.Minor/6)*1\<close>, in 64-bit arithmetic.\<close>

definition estimatedYear :: "Version \<Rightarrow> int" where
  "estimatedYear v = wrap64 (2012 + (Major v - 1) * 1 + go_div (Minor v) 6 * 1)"

definition shouldInclude :: "FetchOptions \<Rightarrow> Version option \<Rightarrow> Version \<Rightarrow> bool" where
  "shouldInclude opts minVersion v =
     (if \<not> AllVersions opts
      then (let byVersion = (case minVersion of
                               None \<Rightarrow> True
                             | Some m \<Rightarrow> \<not> Compare v m < 0)
            in if MinYear opts > 0 \<and> byVersion
               then \<not> estimatedYear v < MinYear opts
               else byVersion)
      else True)"

text \<open>
  The loop over the tags of one page.  \<open>n\<close> is \<^verbatim>\<open>len(tags)\<close>, the list is what is left
  of the page, \<open>allTags\<close> and \<open>existingCount\<close> are the variables of these names; the
  result is \<open>allTags\<close> and \<open>allExistingFound\<close> after the loop.  (\<^verbatim>\<open>newTagsCount\<close> and
  \<^verbatim>\<open>skippedCount\<close> are only printed.)
\<close>

fun process_tags ::
  "(string \<rightharpoonup> bool) option \<Rightarrow> FetchOptions \<Rightarrow> Version option \<Rightarrow> nat \<Rightarrow> string list \<Rightarrow>
     string list \<Rightarrow> nat \<Rightarrow> string list \<times> bool" where
  "process_tags existingTags opts minVersion n [] allTags existingCount = (allTags, False)"
| "process_tags existingTags opts minVersion n (tagName # rest) allTags existingCount =
     (if known existingTags tagName
      then (if existingCount + 1 = n then (allTags, True)
            else process_tags existingTags opts minVersion n rest allTags (existingCount + 1))
      else (case ParseVersion tagName of
              Inl _ \<Rightarrow> process_tags existingTags opts minVersion n rest allTags existingCount
            | Inr v \<Rightarrow>
                if shouldInclude opts minVersion v
                then process_tags existingTags opts minVersion n rest (allTags @ [tagName]) existingCount
                else process_tags existingTags opts minVersion n rest allTags existingCount))"

subsection \<open>FetchTags\<close>

text \<open>
  The error for a failed request, chosen by the type of the library's error:
  \<^verbatim>\<open>if _, ok := err.(*gh.RateLimitError); ok { ... } else if _, ok :=
  err.(*gh.AbuseRateLimitError); ok { ... } else { ... }\<close>.
\<close>

definition classify :: "api_error \<Rightarrow> int \<Rightarrow> fetch_error" where
  "classify a page =
     (case a of
        RateLimitError \<Rightarrow> RateLimited
      | AbuseRateLimitError \<Rightarrow> AbuseDetected
      | OtherError \<Rightarrow> RequestFailed page)"

text \<open>
  The \<^verbatim>\<open>for\<close> loop of \<open>FetchTags\<close>.  The state is \<open>allTags\<close>, \<open>page\<close> and the pages
  requested so far.  The loop need not end (an endpoint may name a next page for ever
  and the deadline never pass): \<open>None\<close> is the run that does not return.
\<close>

partial_function (option) fetch_loop ::
  "endpoint \<Rightarrow> (string \<rightharpoonup> bool) option \<Rightarrow> FetchOptions \<Rightarrow> Version option \<Rightarrow>
     string list \<Rightarrow> int \<Rightarrow> int list \<Rightarrow> FetchResult option" where
  "fetch_loop e existingTags opts minVersion allTags page reqs =
     (if ctx_done e (length reqs)
      then Some \<lparr>tags = allTags, err = Some Timeout, requests = reqs\<rparr>
      else (case ListTags e (length reqs) page of
              Failed a \<Rightarrow>
                Some \<lparr>tags = allTags, err = Some (classify a page), requests = reqs @ [page]\<rparr>
            | Page ts resp \<Rightarrow>
                if resp \<noteq> None \<and> StatusCode (the resp) \<noteq> 200
                then Some \<lparr>tags = allTags, err = Some (BadStatus (StatusCode (the resp)) page),
                           requests = reqs @ [page]\<rparr>
                else if ts = []
                then Some \<lparr>tags = allTags, err = None, requests = reqs @ [page]\<rparr>
                else (case process_tags existingTags opts minVersion (length ts) ts allTags 0 of
                        (allTags', allExistingFound) \<Rightarrow>
                          if allExistingFound
                          then Some \<lparr>tags = allTags', err = None, requests = reqs @ [page]\<rparr>
                          else if resp = None \<or> NextPage (the resp) = 0
                          then Some \<lparr>tags = allTags', err = None, requests = reqs @ [page]\<rparr>
                          else fetch_loop e existingTags opts minVersion allTags'
                                 (NextPage (the resp)) (reqs @ [page]))))"

text \<open>
  The head of \<open>FetchTags\<close>: the options are applied in order to the zero
  \<^verbatim>\<open>FetchOptions\<close>, the default minimum version is filled in, and the minimum
  version is parsed; a minimum version that does not parse ends the call before the
  loop.
\<close>

definition apply_options :: "Option list \<Rightarrow> FetchOptions" where
  "apply_options options =
     foldl (\<lambda>opts opt. opt opts) \<lparr>MinVersion = [], MinYear = 0, AllVersions = False\<rparr> options"

definition with_default :: "FetchOptions \<Rightarrow> FetchOptions" where
  "with_default opts =
     (if MinVersion opts = [] \<and> \<not> AllVersions opts
      then opts\<lparr>MinVersion := DefaultMinVersion\<rparr> else opts)"

definition min_version_of :: "FetchOptions \<Rightarrow> fetch_error + Version option" where
  "min_version_of opts =
     (if MinVersion opts \<noteq> [] \<and> \<not> AllVersions opts
      then (case ParseVersion (NormalizeVersion (MinVersion opts)) of
              Inl parseErr \<Rightarrow> Inl (InvalidMinVersion (MinVersion opts) parseErr)
            | Inr minVersion \<Rightarrow> Inr (Some minVersion))
      else Inr None)"

definition FetchTags ::
  "endpoint \<Rightarrow> (string \<rightharpoonup> bool) option \<Rightarrow> Option list \<Rightarrow> FetchResult option" where
  "FetchTags e existingTags options =
     (let opts = with_default (apply_options options)
      in case min_version_of opts of
           Inl fetchErr \<Rightarrow> Some \<lparr>tags = [], err = Some fetchErr, requests = []\<rparr>
         | Inr minVersion \<Rightarrow> fetch_loop e existingTags opts minVersion [] 1 [])"

subsection \<open>The tag grammar, in the specification's words\<close>

text \<open>
  The specification's grammar: the literal prefix \<^verbatim>\<open>go\<close>, an integer \<open>ma\<close>, a full
  stop, an integer \<open>mi\<close>, optionally a full stop and an integer \<open>pa\<close>, optionally
  \<^verbatim>\<open>rc\<close> and an integer \<open>rc\<close>, and nothing else.  An integer is a non-empty run
  of decimal digits.  \<open>full_version_spec\<close> is the specification's canonical rendering
  \<^verbatim>\<open>{major}.{minor}[.{patch} if patch>0][rc{candidateNumber} if candidate]\<close>.
\<close>

definition is_number :: "string \<Rightarrow> bool" where
  "is_number s = (s \<noteq> [] \<and> list_all is_digit s)"

definition opt_part :: "string \<Rightarrow> string option \<Rightarrow> string" where
  "opt_part p x = (case x of None \<Rightarrow> [] | Some d \<Rightarrow> p @ d)"

definition tag_grammar :: "string \<Rightarrow> string \<Rightarrow> string \<Rightarrow> string option \<Rightarrow> string option \<Rightarrow> bool" where
  "tag_grammar tag ma mi pa rc =
     (is_number ma \<and> is_number mi
      \<and> (case pa of None \<Rightarrow> True | Some p \<Rightarrow> is_number p)
      \<and> (case rc of None \<Rightarrow> True | Some r \<Rightarrow> is_number r)
      \<and> tag = ''go'' @ ma @ ''.'' @ mi @ opt_part ''.'' pa @ opt_part ''rc'' rc)"

definition full_version_spec :: "int \<Rightarrow> int \<Rightarrow> int \<Rightarrow> bool \<Rightarrow> int \<Rightarrow> string" where
  "full_version_spec major minor patch isRC rc =
     itoa major @ ''.'' @ itoa minor
       @ (if patch > 0 then ''.'' @ itoa patch else [])
       @ (if isRC then ''rc'' @ itoa rc else [])"

section \<open>Notions of the proofs\<close>

text \<open>
  \<open>preorder_test gt\<close>: the test \<open>gt\<close> is the "greater" of a total preorder.
  \<open>sorted_upto gt i xs\<close> is the invariant of the outer loop: the elements before
  position \<open>i\<close> are in their final place, none greater than any element after it.
\<close>

definition preorder_test :: "('a \<Rightarrow> 'a \<Rightarrow> bool) \<Rightarrow> bool" where
  "preorder_test gt = ((\<forall>a b c. \<not> gt a b \<and> \<not> gt b c \<longrightarrow> \<not> gt a c) \<and> (\<forall>a b. gt a b \<longrightarrow> \<not> gt b a))"

definition sorted_upto :: "('a \<Rightarrow> 'a \<Rightarrow> bool) \<Rightarrow> nat \<Rightarrow> 'a list \<Rightarrow> bool" where
  "sorted_upto gt i xs = (\<forall>p q. p < i \<and> p < q \<and> q < length xs \<longrightarrow> \<not> gt (xs ! p) (xs ! q))"

text \<open>
  \<open>parsed v\<close>: \<open>v\<close> is a version \<open>ParseVersion\<close> returned, whatever \<open>FetchedAt\<close> the
  caller has given it since (\<^verbatim>\<open>v.FetchedAt = time.Now()\<close> in \<^verbatim>\<open>runVersions\<close>).
\<close>

definition parsed :: "Version \<Rightarrow> bool" where
  "parsed v = (ParseVersion (Tag v) = Inr (v\<lparr>FetchedAt := 0\<rparr>))"

text \<open>
  \<open>key_version g\<close> is the version the group sort compares a group by, where its key
  parses; \<open>group_gt\<close> is the test of the group sort on such groups.  \<open>good_key k\<close>: \<open>k\<close>
  is \<^verbatim>\<open>"%d.%d"\<close> of two numbers that a parsed version can hold.
\<close>

definition key_version :: "VersionGroup \<Rightarrow> Version" where
  "key_version g =
     (case ParseVersion (''go'' @ MajorMinor g @ ''.0'') of
        Inr v \<Rightarrow> v
      | Inl _ \<Rightarrow> \<lparr>Tag = [], Major = 0, Minor = 0, Patch = 0, RC = 0, FullVersion = [],
                  IsRC = False, FetchedAt = 0\<rparr>)"

definition group_gt :: "VersionGroup \<Rightarrow> VersionGroup \<Rightarrow> bool" where
  "group_gt g h = (0 < Compare (key_version g) (key_version h))"

definition good_key :: "string \<Rightarrow> bool" where
  "good_key k = (\<exists>a b. 0 \<le> a \<and> a \<le> MaxInt \<and> 0 \<le> b \<and> b \<le> MaxInt \<and> k = itoa a @ ''.'' @ itoa b)"

text \<open>
  \<open>group_for versions k\<close> is the group the first loop over the map appends for the
  key \<open>k\<close>: the versions with that key, in input order, sorted.
\<close>

definition group_for :: "Version list \<Rightarrow> string \<Rightarrow> VersionGroup" where
  "group_for versions k =
     \<lparr>MajorMinor = k,
      Versions = sort_outer (\<lambda>a b. 0 < Compare a b) 0 (filter (\<lambda>v. GetMajorMinor v = k) versions)\<rparr>"

section \<open>Examples\<close>

text \<open>The versions of the tags used as examples below.\<close>

definition go1_22 :: Version where
  "go1_22 = \<lparr>Tag = ''go1.22'', Major = 1, Minor = 22, Patch = 0, RC = 0,
              FullVersion = ''1.22'', IsRC = False, FetchedAt = 0\<rparr>"

definition go1_22_0 :: Version where
  "go1_22_0 = \<lparr>Tag = ''go1.22.0'', Major = 1, Minor = 22, Patch = 0, RC = 0,
                FullVersion = ''1.22'', IsRC = False, FetchedAt = 0\<rparr>"

definition go1_22_1 :: Version where
  "go1_22_1 = \<lparr>Tag = ''go1.22.1'', Major = 1, Minor = 22, Patch = 1, RC = 0,
                FullVersion = ''1.22.1'', IsRC = False, FetchedAt = 0\<rparr>"

definition go1_22rc1 :: Version where
  "go1_22rc1 = \<lparr>Tag = ''go1.22rc1'', Major = 1, Minor = 22, Patch = 0, RC = 1,
                 FullVersion = ''1.22rc1'', IsRC = True, FetchedAt = 0\<rparr>"

definition go1_21_0 :: Version where
  "go1_21_0 = \<lparr>Tag = ''go1.21.0'', Major = 1, Minor = 21, Patch = 0, RC = 0,
                FullVersion = ''1.21'', IsRC = False, FetchedAt = 0\<rparr>"

definition go1_10 :: Version where
  "go1_10 = \<lparr>Tag = ''go1.10'', Major = 1, Minor = 10, Patch = 0, RC = 0,
              FullVersion = ''1.10'', IsRC = False, FetchedAt = 0\<rparr>"

definition go1_9 :: Version where
  "go1_9 = \<lparr>Tag = ''go1.9'', Major = 1, Minor = 9, Patch = 0, RC = 0,
             FullVersion = ''1.9'', IsRC = False, FetchedAt = 0\<rparr>"

definition go1_21_5 :: Version where
  "go1_21_5 = \<lparr>Tag = ''go1.21.5'', Major = 1, Minor = 21, Patch = 5, RC = 0,
                FullVersion = ''1.21.5'', IsRC = False, FetchedAt = 0\<rparr>"






text \<open>An endpoint with a single page of two tags.\<close>

definition endpoint_two_tags :: endpoint where
  "endpoint_two_tags =
     \<lparr>ctx_done = (\<lambda>n. False),
      ListTags = (\<lambda>n page. Page [''go1.21.5'', ''go1.22.0'']
                               (Some \<lparr>StatusCode = 200, NextPage = 0\<rparr>))\<rparr>"

section \<open>Properties of the version model\<close>

lemma parse_go1_22rc1:
  "ParseVersion ''go1.22rc1'' =
     Inr \<lparr>Tag = ''go1.22rc1'', Major = 1, Minor = 22, Patch = 0, RC = 1,
          FullVersion = ''1.22rc1'', IsRC = True, FetchedAt = 0\<rparr>"
  by code_simp

lemma parse_go1_22rc2:
  "ParseVersion ''go1.22rc2'' =
     Inr \<lparr>Tag = ''go1.22rc2'', Major = 1, Minor = 22, Patch = 0, RC = 2,
          FullVersion = ''1.22rc2'', IsRC = True, FetchedAt = 0\<rparr>"
  by code_simp

lemma parse_go1_22_0:
  "ParseVersion ''go1.22.0'' =
     Inr \<lparr>Tag = ''go1.22.0'', Major = 1, Minor = 22, Patch = 0, RC = 0,
          FullVersion = ''1.22'', IsRC = False, FetchedAt = 0\<rparr>"
  by code_simp

lemma parse_go1_22:
  "ParseVersion ''go1.22'' =
     Inr \<lparr>Tag = ''go1.22'', Major = 1, Minor = 22, Patch = 0, RC = 0,
          FullVersion = ''1.22'', IsRC = False, FetchedAt = 0\<rparr>"
  by code_simp

lemma Compare_antisym: "Compare a b = - Compare b a"
  by (simp add: Compare_def)

lemma Compare_range: "Compare a b = - 1 \<or> Compare a b = 0 \<or> Compare a b = 1"
  by (simp add: Compare_def)

lemma Compare_eq_0_iff:
  "Compare a b = 0 \<longleftrightarrow>
     Major a = Major b \<and> Minor a = Minor b \<and> Patch a = Patch b \<and> IsRC a = IsRC b \<and>
     (IsRC a \<longrightarrow> RC a = RC b)"
  by (auto simp add: Compare_def)

lemma Compare_le_trans: "Compare a b \<le> 0 \<Longrightarrow> Compare b c \<le> 0 \<Longrightarrow> Compare a c \<le> 0"
  unfolding Compare_def
  by (cases "Major a < Major b"; cases "Major b < Major c"; cases "Major a = Major b";
      cases "Major b = Major c"; simp split: if_splits)

lemma Compare_less_trans: "Compare a b < 0 \<Longrightarrow> Compare b c \<le> 0 \<Longrightarrow> Compare a c < 0"
  unfolding Compare_def
  by (cases "Major a < Major b"; cases "Major b < Major c"; cases "Major a = Major b";
      cases "Major b = Major c"; simp split: if_splits)

lemma Compare_refl: "Compare a a = 0"
  by (simp add: Compare_def)

text \<open>
  Claim C1.  \<open>Compare\<close> orders all \<open>Version\<close> values, those \<open>ParseVersion\<close> returns
  among them: swapping the arguments negates the result, the result is one of -1, 0, 1,
  "not greater" and "less" are transitive, a smaller \<open>(Major, Minor, Patch)\<close> in the
  lexicographic order is less, and with equal \<open>(Major, Minor, Patch)\<close> a release
  candidate is less than a final release and, of two release candidates, the one with
  the smaller \<open>RC\<close> is less.  Two versions compare equal exactly when they agree on
  these fields.
\<close>

theorem Compare_total_order:
  "Compare a b = - Compare b a
   \<and> (Compare a b = - 1 \<or> Compare a b = 0 \<or> Compare a b = 1)
   \<and> (Compare a b \<le> 0 \<and> Compare b c \<le> 0 \<longrightarrow> Compare a c \<le> 0)
   \<and> (Compare a b < 0 \<and> Compare b c < 0 \<longrightarrow> Compare a c < 0)
   \<and> (Compare a b = 0 \<and> Compare b c = 0 \<longrightarrow> Compare a c = 0)
   \<and> (Major a < Major b \<or> Major a = Major b \<and> (Minor a < Minor b \<or> Minor a = Minor b \<and> Patch a < Patch b)
        \<longrightarrow> Compare a b = - 1)
   \<and> (Major a = Major b \<and> Minor a = Minor b \<and> Patch a = Patch b \<and> IsRC a \<and> \<not> IsRC b
        \<longrightarrow> Compare a b = - 1)
   \<and> (Major a = Major b \<and> Minor a = Minor b \<and> Patch a = Patch b \<and> IsRC a \<and> IsRC b \<and> RC a < RC b
        \<longrightarrow> Compare a b = - 1)
   \<and> (Compare a b = 0 \<longleftrightarrow>
        Major a = Major b \<and> Minor a = Minor b \<and> Patch a = Patch b \<and> IsRC a = IsRC b \<and>
        (IsRC a \<longrightarrow> RC a = RC b))"
proof -
  have anti: "Compare a b = - Compare b a"
    by (rule Compare_antisym)
  have range: "Compare a b = - 1 \<or> Compare a b = 0 \<or> Compare a b = 1"
    by (rule Compare_range)
  have le: "Compare a b \<le> 0 \<and> Compare b c \<le> 0 \<longrightarrow> Compare a c \<le> 0"
    using Compare_le_trans by blast
  have less: "Compare a b < 0 \<and> Compare b c < 0 \<longrightarrow> Compare a c < 0"
    using Compare_less_trans [of a b c] by simp
  have eq: "Compare a b = 0 \<and> Compare b c = 0 \<longrightarrow> Compare a c = 0"
    by (auto simp add: Compare_eq_0_iff)
  have lex: "Major a < Major b \<or> Major a = Major b \<and> (Minor a < Minor b \<or> Minor a = Minor b \<and> Patch a < Patch b)
        \<longrightarrow> Compare a b = - 1"
    by (auto simp add: Compare_def)
  have rc_final: "Major a = Major b \<and> Minor a = Minor b \<and> Patch a = Patch b \<and> IsRC a \<and> \<not> IsRC b
        \<longrightarrow> Compare a b = - 1"
    by (simp add: Compare_def)
  have rc_rc: "Major a = Major b \<and> Minor a = Minor b \<and> Patch a = Patch b \<and> IsRC a \<and> IsRC b \<and> RC a < RC b
        \<longrightarrow> Compare a b = - 1"
    by (simp add: Compare_def)
  show ?thesis
    using anti range le less eq lex rc_final rc_rc Compare_eq_0_iff [of a b] by blast
qed

theorem Compare_total_order_witness:
  "\<exists>a b c. ParseVersion ''go1.22rc1'' = Inr a \<and> ParseVersion ''go1.22rc2'' = Inr b
     \<and> ParseVersion ''go1.22.0'' = Inr c
     \<and> Compare a b = - 1 \<and> Compare b c = - 1 \<and> Compare a c < 0 \<and> Compare c a = 1"
proof -
  define a where "a = \<lparr>Tag = ''go1.22rc1'', Major = 1, Minor = 22, Patch = 0, RC = 1,
    FullVersion = ''1.22rc1'', IsRC = True, FetchedAt = 0\<rparr>"
  define b where "b = \<lparr>Tag = ''go1.22rc2'', Major = 1, Minor = 22, Patch = 0, RC = 2,
    FullVersion = ''1.22rc2'', IsRC = True, FetchedAt = 0\<rparr>"
  define c where "c = \<lparr>Tag = ''go1.22.0'', Major = 1, Minor = 22, Patch = 0, RC = 0,
    FullVersion = ''1.22'', IsRC = False, FetchedAt = 0\<rparr>"
  have pa: "ParseVersion ''go1.22rc1'' = Inr a"
    unfolding a_def by (rule parse_go1_22rc1)
  have pb: "ParseVersion ''go1.22rc2'' = Inr b"
    unfolding b_def by (rule parse_go1_22rc2)
  have pc: "ParseVersion ''go1.22.0'' = Inr c"
    unfolding c_def by (rule parse_go1_22_0)
  have ab: "Compare a b = - 1"
    using Compare_total_order [of a b c] by (simp add: a_def b_def)
  have bc: "Compare b c = - 1"
    using Compare_total_order [of b c a] by (simp add: b_def c_def)
  have ac: "Compare a c < 0"
    using Compare_total_order [of a b c] ab bc by simp
  have "Compare c a = - Compare a c"
    by (rule conjunct1 [OF Compare_total_order [of c a b]])
  moreover have "Compare a c = - 1 \<or> Compare a c = 0 \<or> Compare a c = 1"
    by (rule conjunct1 [OF conjunct2 [OF Compare_total_order [of a c b]]])
  ultimately have ca: "Compare c a = 1"
    using ac by linarith
  show ?thesis
    using pa pb pc ab bc ac ca by blast
qed

lemma lit_Some: "lit p s = Some t \<longleftrightarrow> s = p @ t"
  unfolding lit_def by (metis append_eq_conv_conj option.distinct(1) option.inject)

lemma lit_None_Nil: "p \<noteq> [] \<Longrightarrow> lit p [] = None"
  by (simp add: lit_def)

lemma lit_None_hd: "p \<noteq> [] \<Longrightarrow> s \<noteq> [] \<Longrightarrow> hd s \<noteq> hd p \<Longrightarrow> lit p s = None"
  by (cases p; cases s; simp add: lit_def)

lemma digits1_append:
  "is_number d \<Longrightarrow> r = [] \<or> \<not> is_digit (hd r) \<Longrightarrow> digits1 (d @ r) = Some (d, r)"
proof -
  assume n: "is_number d" and r: "r = [] \<or> \<not> is_digit (hd r)"
  from n have all: "\<And>x. x \<in> set d \<Longrightarrow> is_digit x" and ne: "d \<noteq> []"
    by (simp_all add: is_number_def list_all_iff)
  from r have "takeWhile is_digit r = []" "dropWhile is_digit r = r"
    by (cases r; simp)+
  then have "takeWhile is_digit (d @ r) = d" "dropWhile is_digit (d @ r) = r"
    using all by simp_all
  then show ?thesis
    using ne by (simp add: digits1_def)
qed

lemma digits1_SomeD:
  "digits1 s = Some (d, r) \<Longrightarrow> s = d @ r \<and> is_number d \<and> (r = [] \<or> \<not> is_digit (hd r))"
  by (auto simp add: digits1_def is_number_def list_all_iff Let_def hd_dropWhile dest: set_takeWhileD split: if_splits)

lemma opt_groupD:
  "opt_group p s = (d, r) \<Longrightarrow> (d = [] \<and> r = s) \<or> (is_number d \<and> s = p @ d @ r)"
  by (auto simp add: opt_group_def lit_Some split: option.splits dest!: digits1_SomeD)

lemma opt_group_absent:
  "p \<noteq> [] \<Longrightarrow> s = [] \<or> hd s \<noteq> hd p \<Longrightarrow> opt_group p s = ([], s)"
  by (cases "s = []") (auto simp add: opt_group_def lit_None_Nil lit_None_hd)

lemma opt_group_present:
  "is_number d \<Longrightarrow> r = [] \<or> \<not> is_digit (hd r) \<Longrightarrow> opt_group p (p @ d @ r) = (d, r)"
  by (simp add: opt_group_def lit_def digits1_append)

lemma FindStringSubmatch_SomeD:
  assumes "FindStringSubmatch tag = Some ms"
  shows "\<exists>ma mi pa rc. tag_grammar tag ma mi pa rc"
proof -
  from assms obtain s1 m1 s2 s3 m2 s4 m3 s5 m4 where
    l1: "lit ''go'' tag = Some s1" and d1: "digits1 s1 = Some (m1, s2)"
    and l2: "lit ''.'' s2 = Some s3" and d2: "digits1 s3 = Some (m2, s4)"
    and g3: "opt_group ''.'' s4 = (m3, s5)" and g4: "opt_group ''rc'' s5 = (m4, [])"
    by (auto simp add: FindStringSubmatch_def split: option.splits prod.splits if_splits)
  have t: "tag = ''go'' @ m1 @ ''.'' @ m2 @ s4" and n1: "is_number m1" and n2: "is_number m2"
    using l1 d1 l2 d2 by (auto simp add: lit_Some dest!: digits1_SomeD)
  from opt_groupD [OF g3] opt_groupD [OF g4]
  consider "s4 = []" | "is_number m4" "s4 = ''rc'' @ m4"
    | "is_number m3" "s4 = ''.'' @ m3" | "is_number m3" "is_number m4" "s4 = ''.'' @ m3 @ ''rc'' @ m4"
    by auto
  then show ?thesis
  proof cases
    case 1
    then have "tag_grammar tag m1 m2 None None"
      using t n1 n2 by (simp add: tag_grammar_def opt_part_def)
    then show ?thesis by blast
  next
    case 2
    then have "tag_grammar tag m1 m2 None (Some m4)"
      using t n1 n2 by (simp add: tag_grammar_def opt_part_def)
    then show ?thesis by blast
  next
    case 3
    then have "tag_grammar tag m1 m2 (Some m3) None"
      using t n1 n2 by (simp add: tag_grammar_def opt_part_def)
    then show ?thesis by blast
  next
    case 4
    then have "tag_grammar tag m1 m2 (Some m3) (Some m4)"
      using t n1 n2 by (simp add: tag_grammar_def opt_part_def)
    then show ?thesis by blast
  qed
qed

lemma not_digit_dot: "\<not> is_digit CHR ''.''" and not_digit_r: "\<not> is_digit CHR ''r''"
  by (simp_all add: is_digit_def)

lemma FindStringSubmatch_grammar:
  assumes "tag_grammar tag ma mi pa rc"
  shows "FindStringSubmatch tag =
    Some [tag, ma, mi, (case pa of None \<Rightarrow> [] | Some p \<Rightarrow> p), (case rc of None \<Rightarrow> [] | Some r \<Rightarrow> r)]"
proof -
  let ?R = "opt_part ''rc'' rc" and ?P = "opt_part ''.'' pa"
  from assms have n: "is_number ma" "is_number mi"
    and t: "tag = ''go'' @ ma @ ''.'' @ mi @ ?P @ ?R"
    by (simp_all add: tag_grammar_def)
  have R: "opt_group ''rc'' ?R = ((case rc of None \<Rightarrow> [] | Some r \<Rightarrow> r), [])"
    using assms opt_group_present [of _ "[]" "''rc''"]
    by (auto simp add: tag_grammar_def opt_part_def opt_group_absent split: option.splits)
  have R0: "?R = [] \<or> \<not> is_digit (hd ?R)" "?R = [] \<or> hd ?R \<noteq> CHR ''.''"
    by (auto simp add: opt_part_def not_digit_r split: option.splits)
  have P: "opt_group ''.'' (?P @ ?R) = ((case pa of None \<Rightarrow> [] | Some p \<Rightarrow> p), ?R)"
    using assms R0 opt_group_present [of _ ?R "''.''"]
    by (auto simp add: tag_grammar_def opt_part_def opt_group_absent split: option.splits)
  have P0: "?P @ ?R = [] \<or> \<not> is_digit (hd (?P @ ?R))"
    using R0 by (auto simp add: opt_part_def not_digit_dot split: option.splits)
  have d2: "digits1 (mi @ ?P @ ?R) = Some (mi, ?P @ ?R)"
    using n(2) P0 by (rule digits1_append)
  have d1: "digits1 (ma @ ''.'' @ mi @ ?P @ ?R) = Some (ma, ''.'' @ mi @ ?P @ ?R)"
    using n(1) by (rule digits1_append) (simp add: not_digit_dot)
  have l1: "lit ''go'' tag = Some (ma @ ''.'' @ mi @ ?P @ ?R)"
    unfolding lit_Some by (simp add: t)
  have l2: "lit ''.'' (''.'' @ mi @ ?P @ ?R) = Some (mi @ ?P @ ?R)"
    unfolding lit_Some by simp
  show ?thesis
    unfolding FindStringSubmatch_def l1 option.case d1 prod.case l2 d2 P R by simp
qed

lemma is_number_hd: "is_number s \<Longrightarrow> is_digit (hd s)"
  by (cases s) (simp_all add: is_number_def)

lemma Atoi_number: "is_number s \<Longrightarrow> Atoi s = min MaxInt (digits_val s)"
proof -
  assume n: "is_number s"
  then have "is_digit (hd s)"
    by (rule is_number_hd)
  then have "hd s \<noteq> CHR ''-''" "hd s \<noteq> CHR ''+''"
    by (auto simp add: is_digit_def)
  then show ?thesis
    using n by (simp add: Atoi_def is_number_def)
qed

lemma is_number_not_Nil: "is_number s \<Longrightarrow> s \<noteq> []"
  by (simp add: is_number_def)

lemma ParseVersion_of_grammar:
  assumes g: "tag_grammar tag ma mi pa rc"
  shows "\<exists>v. ParseVersion tag = Inr v \<and> Tag v = tag
         \<and> Major v = min MaxInt (digits_val ma) \<and> Minor v = min MaxInt (digits_val mi)
         \<and> Patch v = (case pa of None \<Rightarrow> 0 | Some p \<Rightarrow> min MaxInt (digits_val p))
         \<and> IsRC v = (rc \<noteq> None)
         \<and> RC v = (case rc of None \<Rightarrow> 0 | Some r \<Rightarrow> min MaxInt (digits_val r))
         \<and> FullVersion v = full_version_spec (Major v) (Minor v) (Patch v) (IsRC v) (RC v)
         \<and> FetchedAt v = 0"
proof -
  from g have n: "is_number ma" "is_number mi"
    and np: "\<And>p. pa = Some p \<Longrightarrow> is_number p" and nr: "\<And>r. rc = Some r \<Longrightarrow> is_number r"
    by (simp_all add: tag_grammar_def)
  show ?thesis
    unfolding ParseVersion_def FindStringSubmatch_grammar [OF g]
    using n np nr
    by (auto simp add: Let_def Atoi_number full_version_spec_def is_number_not_Nil
        split: option.splits)
qed

lemma ParseVersion_not_grammar:
  assumes "\<forall>ma mi pa rc. \<not> tag_grammar tag ma mi pa rc"
  shows "ParseVersion tag = Inl (InvalidFormat tag)"
proof (cases "FindStringSubmatch tag")
  case None
  then show ?thesis by (simp add: ParseVersion_def)
next
  case (Some ms)
  from FindStringSubmatch_SomeD [OF this] assms show ?thesis by blast
qed

text \<open>
  Claim C4.  \<open>ParseVersion\<close> succeeds exactly on the tags of the grammar.  On a tag of
  the grammar the result carries the tag, the values of the integers (an integer too
  large for \<^verbatim>\<open>int\<close> is read as the largest \<^verbatim>\<open>int\<close>), \<open>Patch = 0\<close> when the patch is
  absent, \<open>IsRC\<close> exactly when the \<^verbatim>\<open>rc\<close> suffix is there (\<open>RC = 0\<close> without it) and
  the \<open>FullVersion\<close> rendered from the fields as the specification says; on every other
  string the result is the error \<open>InvalidFormat\<close>.
\<close>

theorem ParseVersion_grammar:
  "(tag_grammar tag ma mi pa rc \<longrightarrow>
      (\<exists>v. ParseVersion tag = Inr v \<and> Tag v = tag
         \<and> Major v = min MaxInt (digits_val ma) \<and> Minor v = min MaxInt (digits_val mi)
         \<and> Patch v = (case pa of None \<Rightarrow> 0 | Some p \<Rightarrow> min MaxInt (digits_val p))
         \<and> IsRC v = (rc \<noteq> None)
         \<and> RC v = (case rc of None \<Rightarrow> 0 | Some r \<Rightarrow> min MaxInt (digits_val r))
         \<and> FullVersion v = full_version_spec (Major v) (Minor v) (Patch v) (IsRC v) (RC v)
         \<and> FetchedAt v = 0))
   \<and> ((\<forall>ma mi pa rc. \<not> tag_grammar tag ma mi pa rc) \<longrightarrow> ParseVersion tag = Inl (InvalidFormat tag))
   \<and> ((\<exists>v. ParseVersion tag = Inr v) \<longleftrightarrow> (\<exists>ma mi pa rc. tag_grammar tag ma mi pa rc))"
proof -
  have ok: "tag_grammar tag ma mi pa rc \<Longrightarrow> \<exists>v. ParseVersion tag = Inr v" for ma mi pa rc
    using ParseVersion_of_grammar by blast
  have bad: "ParseVersion tag = Inl (InvalidFormat tag)"
    if "\<forall>ma mi pa rc. \<not> tag_grammar tag ma mi pa rc"
    using that by (rule ParseVersion_not_grammar)
  have iff: "(\<exists>v. ParseVersion tag = Inr v) \<longleftrightarrow> (\<exists>ma mi pa rc. tag_grammar tag ma mi pa rc)"
    using ok bad by (metis Inl_Inr_False)
  from ParseVersion_of_grammar [of tag ma mi pa rc] bad iff show ?thesis by blast
qed

theorem ParseVersion_grammar_witness:
  "ParseVersion ''go1.22.3rc1'' =
     Inr \<lparr>Tag = ''go1.22.3rc1'', Major = 1, Minor = 22, Patch = 3, RC = 1,
          FullVersion = ''1.22.3rc1'', IsRC = True, FetchedAt = 0\<rparr>
   \<and> ParseVersion ''v1.22'' = Inl (InvalidFormat ''v1.22'')"
proof -
  have g: "tag_grammar ''go1.22.3rc1'' ''1'' ''22'' (Some ''3'') (Some ''1'')"
    by (simp add: tag_grammar_def is_number_def is_digit_def opt_part_def)
  have b: "\<forall>ma mi pa rc. \<not> tag_grammar ''v1.22'' ma mi pa rc"
    by (simp add: tag_grammar_def)
  have v: "digits_val ''1'' = 1" "digits_val ''22'' = 22" "digits_val ''3'' = 3"
    by (simp_all add: digits_val_def digit_val_def)
  have r: "full_version_spec 1 22 3 True 1 = ''1.22.3rc1''"
    by code_simp
  from ParseVersion_grammar [of "''go1.22.3rc1''" "''1''" "''22''" "Some ''3''" "Some ''1''"] g
  obtain w where w: "ParseVersion ''go1.22.3rc1'' = Inr w" "Tag w = ''go1.22.3rc1''"
    "Major w = 1" "Minor w = 22" "Patch w = 3" "IsRC w" "RC w = 1"
    "FullVersion w = full_version_spec (Major w) (Minor w) (Patch w) (IsRC w) (RC w)"
    "FetchedAt w = 0"
    by (auto simp add: v MaxInt_def)
  then have "w = \<lparr>Tag = ''go1.22.3rc1'', Major = 1, Minor = 22, Patch = 3, RC = 1,
          FullVersion = ''1.22.3rc1'', IsRC = True, FetchedAt = 0\<rparr>"
    using r by simp
  moreover have "ParseVersion ''v1.22'' = Inl (InvalidFormat ''v1.22'')"
    using ParseVersion_grammar [of "''v1.22''"] b by blast
  ultimately show ?thesis
    using w(1) by simp
qed

text \<open>
  Claim C9.  The pattern takes any digits after \<^verbatim>\<open>rc\<close>, zero included: the tag
  \<^verbatim>\<open>go1.22rc0\<close> parses to a release candidate whose \<open>RC\<close> is 0, the value the
  field's comment reserves for "not an RC version".
\<close>

theorem ParseVersion_rc0:
  "ParseVersion ''go1.22rc0'' =
     Inr \<lparr>Tag = ''go1.22rc0'', Major = 1, Minor = 22, Patch = 0, RC = 0,
          FullVersion = ''1.22rc0'', IsRC = True, FetchedAt = 0\<rparr>"
  by code_simp

text \<open>
  Claim C10.  The tags \<^verbatim>\<open>go1.22\<close> and \<^verbatim>\<open>go1.22.0\<close> differ, both parse, the two
  versions agree on \<open>Major\<close>, \<open>Minor\<close>, \<open>Patch\<close>, \<open>IsRC\<close>, \<open>RC\<close> and on the
  \<open>FullVersion\<close> \<^verbatim>\<open>1.22\<close>, and \<open>Compare\<close> returns 0 on them: versions that compare
  equal need not have the same tag.
\<close>

theorem ParseVersion_not_injective:
  "\<exists>v w. ParseVersion ''go1.22'' = Inr v \<and> ParseVersion ''go1.22.0'' = Inr w
     \<and> ''go1.22'' \<noteq> ''go1.22.0'' \<and> Tag v \<noteq> Tag w
     \<and> Major v = Major w \<and> Minor v = Minor w \<and> Patch v = Patch w
     \<and> IsRC v = IsRC w \<and> RC v = RC w
     \<and> FullVersion v = ''1.22'' \<and> FullVersion w = ''1.22''
     \<and> Compare v w = 0"
  by (simp add: parse_go1_22 parse_go1_22_0 Compare_def)

section \<open>The sorting loops\<close>

lemma length_sort_inner [simp]: "length (sort_inner gt i j xs) = length xs"
  by (induction gt i j xs rule: sort_inner.induct) (subst sort_inner.simps, simp)

lemma preorder_test_trans: "preorder_test gt \<Longrightarrow> \<not> gt a b \<Longrightarrow> \<not> gt b c \<Longrightarrow> \<not> gt a c"
  unfolding preorder_test_def by blast

lemma preorder_test_asym: "preorder_test gt \<Longrightarrow> gt a b \<Longrightarrow> \<not> gt b a"
  unfolding preorder_test_def by blast

lemma mset_sort_inner: "i < j \<Longrightarrow> mset (sort_inner gt i j xs) = mset xs"
proof (induction gt i j xs rule: sort_inner.induct)
  case (1 gt i j xs)
  show ?case
  proof (cases "j < length xs")
    case True
    let ?ys = "if gt (xs ! i) (xs ! j) then xs[i := xs ! j, j := xs ! i] else xs"
    have "mset ?ys = mset xs"
      using True "1.prems" by (simp add: mset_swap)
    moreover have "mset (sort_inner gt i (j + 1) ?ys) = mset ?ys"
      using "1.IH" [OF True] "1.prems" by simp
    ultimately show ?thesis
      using True by (subst sort_inner.simps) simp
  next
    case False
    then show ?thesis by (subst sort_inner.simps) simp
  qed
qed

lemma take_sort_inner: "i < j \<Longrightarrow> take i (sort_inner gt i j xs) = take i xs"
proof (induction gt i j xs rule: sort_inner.induct)
  case (1 gt i j xs)
  show ?case
  proof (cases "j < length xs")
    case True
    let ?ys = "if gt (xs ! i) (xs ! j) then xs[i := xs ! j, j := xs ! i] else xs"
    have "take i ?ys = take i xs"
      using "1.prems" by simp
    moreover have "take i (sort_inner gt i (j + 1) ?ys) = take i ?ys"
      using "1.IH" [OF True] "1.prems" by simp
    ultimately show ?thesis
      using True by (subst sort_inner.simps) simp
  next
    case False
    then show ?thesis by (subst sort_inner.simps) simp
  qed
qed

text \<open>After the inner loop the element at i is not greater than any later one.\<close>

lemma sort_inner_min:
  assumes "preorder_test gt" "i < j" "\<forall>k. i < k \<and> k < j \<longrightarrow> \<not> gt (xs ! i) (xs ! k)"
    and "i < k" "k < length xs"
  shows "\<not> gt (sort_inner gt i j xs ! i) (sort_inner gt i j xs ! k)"
  using assms
proof (induction gt i j xs rule: sort_inner.induct)
  case (1 gt i j xs)
  show ?case
  proof (cases "j < length xs")
    case True
    let ?ys = "if gt (xs ! i) (xs ! j) then xs[i := xs ! j, j := xs ! i] else xs"
    have len: "length ?ys = length xs" by simp
    have inv: "\<forall>k. i < k \<and> k < j + 1 \<longrightarrow> \<not> gt (?ys ! i) (?ys ! k)"
    proof (intro allI impI)
      fix k assume k: "i < k \<and> k < j + 1"
      show "\<not> gt (?ys ! i) (?ys ! k)"
      proof (cases "gt (xs ! i) (xs ! j)")
        case sw: True
        then have ji: "\<not> gt (xs ! j) (xs ! i)"
          using "1.prems"(1) preorder_test_asym by metis
        show ?thesis
        proof (cases "k = j")
          case True
          then show ?thesis
            using sw ji \<open>j < length xs\<close> "1.prems"(2) by simp
        next
          case False
          then have "k < j" using k by simp
          then have "\<not> gt (xs ! i) (xs ! k)"
            using "1.prems"(3) k by blast
          then have "\<not> gt (xs ! j) (xs ! k)"
            using ji "1.prems"(1) preorder_test_trans by metis
          then show ?thesis
            using sw \<open>k < j\<close> k \<open>j < length xs\<close> "1.prems"(2) by simp
        qed
      next
        case nsw: False
        then show ?thesis
          using "1.prems"(3) k by (cases "k = j") auto
      qed
    qed
    have "\<not> gt (sort_inner gt i (j + 1) ?ys ! i) (sort_inner gt i (j + 1) ?ys ! k)"
      using "1.IH" [OF True "1.prems"(1) _ inv "1.prems"(4)] "1.prems"(2,5) len by simp
    then show ?thesis
      using True by (subst (1 2) sort_inner.simps) simp
  next
    case False
    with "1.prems" show ?thesis
      by (subst (1 2) sort_inner.simps) simp
  qed
qed

lemma sorted_upto_step:
  assumes pre: "preorder_test gt" and inv: "sorted_upto gt i xs" and i: "i + 1 < length xs"
  shows "sorted_upto gt (i + 1) (sort_inner gt i (i + 1) xs)"
proof -
  let ?ys = "sort_inner gt i (i + 1) xs"
  have tk: "take i ?ys = take i xs" by (simp add: take_sort_inner)
  have ms: "mset ?ys = mset xs" by (simp add: mset_sort_inner)
  have "mset (take i ?ys) + mset (drop i ?ys) = mset (take i xs) + mset (drop i xs)"
    using ms by (simp flip: mset_append)
  then have dr: "mset (drop i ?ys) = mset (drop i xs)"
    using tk by simp
  show ?thesis
    unfolding sorted_upto_def
  proof (intro allI impI)
    fix p q assume pq: "p < i + 1 \<and> p < q \<and> q < length ?ys"
    show "\<not> gt (?ys ! p) (?ys ! q)"
    proof (cases "p = i")
      case True
      have "\<forall>k. i < k \<and> k < i + 1 \<longrightarrow> \<not> gt (xs ! i) (xs ! k)"
        by auto
      from sort_inner_min [OF pre _ this, of q] True pq show ?thesis
        by simp
    next
      case False
      then have p: "p < i" using pq by simp
      have yp: "?ys ! p = xs ! p"
        using p tk by (metis nth_take)
      show ?thesis
      proof (cases "q < i")
        case True
        then have "?ys ! q = xs ! q" using tk by (metis nth_take)
        then show ?thesis
          using yp inv p pq by (simp add: sorted_upto_def)
      next
        case False
        then have "drop i ?ys ! (q - i) = ?ys ! q" "q - i < length (drop i ?ys)"
          using pq by (simp, simp, arith)
        then have "?ys ! q \<in> set (drop i ?ys)"
          by (metis nth_mem)
        then have "?ys ! q \<in> set (drop i xs)"
          using dr by (metis set_mset_mset)
        then obtain n where "n < length (drop i xs)" "drop i xs ! n = ?ys ! q"
          by (auto simp add: in_set_conv_nth)
        then have "i \<le> i + n" "i + n < length xs" "?ys ! q = xs ! (i + n)"
          by simp_all
        then obtain q' where "i \<le> q'" "q' < length xs" "?ys ! q = xs ! q'"
          by blast
        then show ?thesis
          using yp inv p by (simp add: sorted_upto_def)
      qed
    qed
  qed
qed

lemma sort_outer_sorted_upto:
  "preorder_test gt \<Longrightarrow> sorted_upto gt i xs \<Longrightarrow> sorted_upto gt (length xs) (sort_outer gt i xs)"
proof (induction gt i xs rule: sort_outer.induct)
  case (1 gt i xs)
  show ?case
  proof (cases "i + 1 < length xs")
    case True
    have "sorted_upto gt (length (sort_inner gt i (i + 1) xs)) (sort_outer gt (i + 1) (sort_inner gt i (i + 1) xs))"
      using "1.IH" [OF True "1.prems"(1)] sorted_upto_step [OF "1.prems" True] by simp
    then show ?thesis
      using True by (subst sort_outer.simps) simp
  next
    case False
    have "sorted_upto gt (length xs) xs"
      unfolding sorted_upto_def
    proof (intro allI impI)
      fix p q assume "p < length xs \<and> p < q \<and> q < length xs"
      then have "p < i" using False by simp
      then show "\<not> gt (xs ! p) (xs ! q)"
        using "1.prems"(2) \<open>p < length xs \<and> p < q \<and> q < length xs\<close> by (simp add: sorted_upto_def)
    qed
    then show ?thesis
      using False by (subst sort_outer.simps) simp
  qed
qed

lemma length_sort_outer [simp]: "length (sort_outer gt i xs) = length xs"
  by (induction gt i xs rule: sort_outer.induct) (subst sort_outer.simps, simp)

lemma mset_sort_outer: "mset (sort_outer gt i xs) = mset xs"
  by (induction gt i xs rule: sort_outer.induct) (subst sort_outer.simps, simp add: mset_sort_inner)

lemma sorted_sort_outer:
  assumes "preorder_test gt"
  shows "sorted_wrt (\<lambda>a b. \<not> gt a b) (sort_outer gt 0 xs)"
proof -
  have "sorted_upto gt 0 xs" by (simp add: sorted_upto_def)
  from sort_outer_sorted_upto [OF assms this]
  show ?thesis
    by (simp add: sorted_upto_def sorted_wrt_iff_nth_less)
qed

lemma sorted_wrt_unique:
  assumes "sorted_wrt le xs" "sorted_wrt le ys" "mset xs = mset ys"
    and "\<And>a b. a \<in> set xs \<Longrightarrow> b \<in> set xs \<Longrightarrow> le a b \<Longrightarrow> le b a \<Longrightarrow> a = b"
  shows "xs = ys"
  using assms
proof (induction xs arbitrary: ys)
  case Nil
  then show ?case by simp
next
  case (Cons x xs)
  then obtain y ys' where ys: "ys = y # ys'"
    by (cases ys) auto
  have sets: "set (x # xs) = set ys"
    using Cons.prems(3) by (metis set_mset_mset)
  have "x = y"
  proof (rule ccontr)
    assume ne: "x \<noteq> y"
    then have "y \<in> set xs" "x \<in> set ys'"
      using sets ys by auto
    then have "le x y" "le y x"
      using Cons.prems(1,2) ys by auto
    moreover have "y \<in> set (x # xs)"
      using \<open>y \<in> set xs\<close> by simp
    ultimately show False
      using Cons.prems(4) [of x y] ne by simp
  qed
  moreover have "xs = ys'"
  proof (rule Cons.IH)
    show "sorted_wrt le xs" "sorted_wrt le ys'"
      using Cons.prems(1,2) ys by auto
    show "mset xs = mset ys'"
      using Cons.prems(3) ys \<open>x = y\<close> by simp
    show "\<And>a b. a \<in> set xs \<Longrightarrow> b \<in> set xs \<Longrightarrow> le a b \<Longrightarrow> le b a \<Longrightarrow> a = b"
      using Cons.prems(4) by auto
  qed
  ultimately show ?case
    using ys by simp
qed

section \<open>Numerals and group keys\<close>

lemma digit_char_table:
  "list_all (\<lambda>d. is_digit (digit_char d) \<and> digit_val (digit_char d) = int d) [0..<10]"
  by code_simp

lemma digit_char_props:
  assumes "d < 10"
  shows "is_digit (digit_char d)" "digit_val (digit_char d) = int d"
  using digit_char_table assms by (simp_all add: list_all_iff)

lemma digits_val_snoc: "digits_val (s @ [c]) = 10 * digits_val s + digit_val c"
  by (simp add: digits_val_def)

lemma nat_digits_props: "is_number (nat_digits n) \<and> digits_val (nat_digits n) = int n"
proof (induction n rule: nat_digits.induct)
  case (1 n)
  show ?case
  proof (cases "n < 10")
    case True
    then show ?thesis
      by (subst (1 2) nat_digits.simps) (simp add: is_number_def digit_char_props digits_val_def)
  next
    case False
    have "n mod 10 < 10" by simp
    then have "is_digit (digit_char (n mod 10))" "digit_val (digit_char (n mod 10)) = int (n mod 10)"
      by (rule digit_char_props)+
    moreover have "is_number (nat_digits (n div 10))" "digits_val (nat_digits (n div 10)) = int (n div 10)"
      using "1.IH" False by simp_all
    ultimately show ?thesis
      using False
      by (subst (1 2) nat_digits.simps) (simp add: is_number_def digits_val_snoc zdiv_int zmod_int)
  qed
qed

lemma itoa_nonneg: "0 \<le> n \<Longrightarrow> is_number (itoa n) \<and> digits_val (itoa n) = n"
  using nat_digits_props [of "nat n"] by (simp add: itoa_def)

lemma is_digit_val: "is_digit c \<Longrightarrow> 0 \<le> digit_val c"
  by (auto simp add: is_digit_def digit_val_def)

lemma digits_val_nonneg: "list_all is_digit s \<Longrightarrow> 0 \<le> digits_val s"
  by (induction s rule: rev_induct) (simp_all add: digits_val_def is_digit_val)

lemma tag_grammar_key:
  assumes "0 \<le> a" "0 \<le> b"
  shows "tag_grammar (''go'' @ (itoa a @ ''.'' @ itoa b) @ ''.0'') (itoa a) (itoa b) (Some ''0'') None"
  using assms itoa_nonneg [of a] itoa_nonneg [of b]
  by (simp add: tag_grammar_def opt_part_def is_number_def is_digit_def)

lemma ParseVersion_key:
  assumes "0 \<le> a" "a \<le> MaxInt" "0 \<le> b" "b \<le> MaxInt"
  shows "\<exists>v. ParseVersion (''go'' @ (itoa a @ ''.'' @ itoa b) @ ''.0'') = Inr v
    \<and> Major v = a \<and> Minor v = b \<and> Patch v = 0 \<and> \<not> IsRC v \<and> RC v = 0"
proof -
  have "digits_val ''0'' = 0"
    by (simp add: digits_val_def digit_val_def)
  then show ?thesis
    using ParseVersion_of_grammar [OF tag_grammar_key [OF assms(1,3)]] assms
      itoa_nonneg [of a] itoa_nonneg [of b]
    by (auto simp add: MaxInt_def)
qed

lemma ParseVersion_range:
  assumes "ParseVersion tag = Inr v"
  shows "0 \<le> Major v \<and> Major v \<le> MaxInt \<and> 0 \<le> Minor v \<and> Minor v \<le> MaxInt"
proof -
  from assms have "FindStringSubmatch tag \<noteq> None"
    by (auto simp add: ParseVersion_def split: option.splits)
  then obtain ma mi pa rc where g: "tag_grammar tag ma mi pa rc"
    using FindStringSubmatch_SomeD by blast
  then have "0 \<le> digits_val ma" "0 \<le> digits_val mi"
    by (simp_all add: tag_grammar_def is_number_def digits_val_nonneg)
  then show ?thesis
    using ParseVersion_of_grammar [OF g] assms by (auto simp add: MaxInt_def)
qed

text \<open>
  What does hold of \<open>RC\<close> for every version \<open>ParseVersion\<close> returns: it is not
  negative, and it is 0 when the version is not a release candidate.
\<close>

lemma ParseVersion_RC:
  assumes "ParseVersion tag = Inr v"
  shows "0 \<le> RC v \<and> (\<not> IsRC v \<longrightarrow> RC v = 0)"
proof -
  from assms have "FindStringSubmatch tag \<noteq> None"
    by (auto simp add: ParseVersion_def split: option.splits)
  then obtain ma mi pa rc where g: "tag_grammar tag ma mi pa rc"
    using FindStringSubmatch_SomeD by blast
  then have "\<And>r. rc = Some r \<Longrightarrow> 0 \<le> digits_val r"
    by (simp add: tag_grammar_def is_number_def digits_val_nonneg)
  then show ?thesis
    using ParseVersion_of_grammar [OF g] assms
    by (cases rc) (auto simp add: MaxInt_def)
qed

lemma parsed_range:
  "parsed v \<Longrightarrow> 0 \<le> Major v \<and> Major v \<le> MaxInt \<and> 0 \<le> Minor v \<and> Minor v \<le> MaxInt"
  using ParseVersion_range [of "Tag v" "v\<lparr>FetchedAt := 0\<rparr>"] by (simp add: parsed_def)

section \<open>The grouping\<close>

lemma group_of_foldl:
  "group_of (foldl add_to_group m vs) k = group_of m k @ filter (\<lambda>v. GetMajorMinor v = k) vs"
  by (induction vs arbitrary: m) (auto simp add: add_to_group_def group_of_def Let_def)

lemma dom_foldl: "dom (foldl add_to_group m vs) = dom m \<union> GetMajorMinor ` set vs"
  by (induction vs arbitrary: m) (auto simp add: add_to_group_def Let_def)

lemma group_of_build: "group_of (build_groups vs) k = filter (\<lambda>v. GetMajorMinor v = k) vs"
  by (simp add: build_groups_def group_of_foldl) (simp add: group_of_def)

lemma dom_build: "dom (build_groups vs) = GetMajorMinor ` set vs"
  by (simp add: build_groups_def dom_foldl)

lemma preorder_Compare: "preorder_test (\<lambda>a b. 0 < Compare a b)"
  unfolding preorder_test_def
proof (intro conjI allI impI)
  fix a b c assume "\<not> 0 < Compare a b \<and> \<not> 0 < Compare b c"
  then have "Compare a b \<le> 0" "Compare b c \<le> 0" by simp_all
  then have "Compare a c \<le> 0" by (rule Compare_le_trans)
  then show "\<not> 0 < Compare a c" by simp
next
  fix a b :: Version assume "0 < Compare a b"
  then show "\<not> 0 < Compare b a"
    using Compare_antisym [of a b] by simp
qed

lemma preorder_group_gt: "preorder_test group_gt"
  using preorder_Compare unfolding preorder_test_def group_gt_def by blast

lemma good_key_version:
  assumes "good_key (MajorMinor g)"
  shows "\<exists>v. ParseVersion (''go'' @ MajorMinor g @ ''.0'') = Inr v \<and> key_version g = v
    \<and> MajorMinor g = itoa (Major v) @ ''.'' @ itoa (Minor v) \<and> Patch v = 0 \<and> \<not> IsRC v"
proof -
  from assms obtain a b where ab: "0 \<le> a" "a \<le> MaxInt" "0 \<le> b" "b \<le> MaxInt"
    and k: "MajorMinor g = itoa a @ ''.'' @ itoa b"
    by (auto simp add: good_key_def)
  from ParseVersion_key [OF ab] obtain v where
    "ParseVersion (''go'' @ (itoa a @ ''.'' @ itoa b) @ ''.0'') = Inr v"
    "Major v = a" "Minor v = b" "Patch v = 0" "\<not> IsRC v"
    by blast
  then show ?thesis
    using k by (simp add: key_version_def)
qed

lemma group_greater_pure:
  "good_key (MajorMinor g) \<Longrightarrow> good_key (MajorMinor h) \<Longrightarrow> group_greater g h = Inr (group_gt g h)"
  using good_key_version [of g] good_key_version [of h]
  by (auto simp add: group_greater_def group_gt_def)

lemma group_gt_antisym:
  assumes "good_key (MajorMinor g)" "good_key (MajorMinor h)" "\<not> group_gt g h" "\<not> group_gt h g"
  shows "MajorMinor g = MajorMinor h"
proof -
  have "Compare (key_version g) (key_version h) = 0"
    using assms(3,4) Compare_antisym [of "key_version g" "key_version h"]
    by (simp add: group_gt_def)
  then have "Major (key_version g) = Major (key_version h)" "Minor (key_version g) = Minor (key_version h)"
    by (simp_all add: Compare_eq_0_iff)
  then show ?thesis
    using good_key_version [OF assms(1)] good_key_version [OF assms(2)] by auto
qed


lemma set_sort_inner: "i < j \<Longrightarrow> set (sort_inner gt i j xs) = set xs"
  using mset_sort_inner [of i j gt xs] by (metis set_mset_mset)

lemma set_sort_outer: "set (sort_outer gt i xs) = set xs"
  using mset_sort_outer [of gt i xs] by (metis set_mset_mset)

lemma group_sort_inner_pure:
  "\<forall>g\<in>set xs. good_key (MajorMinor g) \<Longrightarrow> i < j \<Longrightarrow>
     group_sort_inner i j xs = Inr (sort_inner group_gt i j xs)"
proof (induction group_gt i j xs rule: sort_inner.induct)
  case (1 i j xs)
  show ?case
  proof (cases "j < length xs")
    case True
    let ?ys = "if group_gt (xs ! i) (xs ! j) then xs[i := xs ! j, j := xs ! i] else xs"
    have gg: "group_greater (xs ! i) (xs ! j) = Inr (group_gt (xs ! i) (xs ! j))"
      using "1.prems" True by (intro group_greater_pure) simp_all
    have "mset ?ys = mset xs"
      using True "1.prems"(2) by (simp add: mset_swap)
    then have "set ?ys = set xs"
      by (metis set_mset_mset)
    then have "group_sort_inner i (j + 1) ?ys = Inr (sort_inner group_gt i (j + 1) ?ys)"
      using "1.hyps" [OF True] "1.prems" by simp
    then show ?thesis
      using True gg
      by (subst group_sort_inner.simps, subst sort_inner.simps) (simp split: if_splits)
  next
    case False
    then show ?thesis
      by (subst group_sort_inner.simps, subst sort_inner.simps) simp
  qed
qed

lemma group_sort_outer_pure:
  "\<forall>g\<in>set xs. good_key (MajorMinor g) \<Longrightarrow>
     group_sort_outer i xs = Inr (sort_outer group_gt i xs)"
proof (induction group_gt i xs rule: sort_outer.induct)
  case (1 i xs)
  show ?case
  proof (cases "i + 1 < length xs")
    case True
    have inner: "group_sort_inner i (i + 1) xs = Inr (sort_inner group_gt i (i + 1) xs)"
      using "1.prems" by (intro group_sort_inner_pure) simp_all
    have "group_sort_outer (i + 1) (sort_inner group_gt i (i + 1) xs)
      = Inr (sort_outer group_gt (i + 1) (sort_inner group_gt i (i + 1) xs))"
      using "1.hyps" [OF True] "1.prems" by (simp add: set_sort_inner)
    then show ?thesis
      using True inner
      by (subst group_sort_outer.simps, subst sort_outer.simps) simp
  next
    case False
    then show ?thesis
      by (subst group_sort_outer.simps, subst sort_outer.simps) simp
  qed
qed

lemma GroupVersions_alt:
  "GroupVersions order versions = group_sort_outer 0 (map (group_for versions) order)"
proof -
  have "group_for versions = (\<lambda>k. \<lparr>MajorMinor = k,
      Versions = sort_outer (\<lambda>a b. 0 < Compare a b) 0 (group_of (build_groups versions) k)\<rparr>)"
    by (simp add: fun_eq_iff group_for_def group_of_build)
  then show ?thesis
    by (simp add: GroupVersions_def Let_def)
qed

lemma parsed_good_key: "parsed v \<Longrightarrow> good_key (GetMajorMinor v)"
  using parsed_range [of v] unfolding good_key_def GetMajorMinor_def by blast


lemma group_for_perm:
  assumes "mset versions' = mset versions"
    and "\<forall>a\<in>set versions. \<forall>b\<in>set versions. Compare a b = 0 \<longrightarrow> a = b"
  shows "group_for versions' k = group_for versions k"
proof -
  let ?le = "\<lambda>a b. \<not> 0 < Compare a b"
  let ?xs = "filter (\<lambda>v. GetMajorMinor v = k) versions"
  let ?ys = "filter (\<lambda>v. GetMajorMinor v = k) versions'"
  have "sort_outer (\<lambda>a b. 0 < Compare a b) 0 ?xs = sort_outer (\<lambda>a b. 0 < Compare a b) 0 ?ys"
  proof (rule sorted_wrt_unique [where le = ?le])
    show "sorted_wrt ?le (sort_outer (\<lambda>a b. 0 < Compare a b) 0 ?xs)"
      "sorted_wrt ?le (sort_outer (\<lambda>a b. 0 < Compare a b) 0 ?ys)"
      by (rule sorted_sort_outer [OF preorder_Compare])+
    show "mset (sort_outer (\<lambda>a b. 0 < Compare a b) 0 ?xs) = mset (sort_outer (\<lambda>a b. 0 < Compare a b) 0 ?ys)"
      by (simp add: mset_sort_outer assms(1))
    fix a b
    assume "a \<in> set (sort_outer (\<lambda>a b. 0 < Compare a b) 0 ?xs)"
      "b \<in> set (sort_outer (\<lambda>a b. 0 < Compare a b) 0 ?xs)"
      and le: "\<not> 0 < Compare a b" "\<not> 0 < Compare b a"
    then have "a \<in> set versions" "b \<in> set versions"
      by (simp_all add: set_sort_outer)
    moreover have "Compare a b = 0"
      using le Compare_antisym [of a b] by simp
    ultimately show "a = b"
      using assms(2) by blast
  qed
  then show ?thesis
    by (simp add: group_for_def)
qed

lemma GroupVersions_result:
  assumes p: "\<forall>v\<in>set versions. parsed v"
    and it: "iteration_order (build_groups versions) order"
  shows "GroupVersions order versions = Inr (sort_outer group_gt 0 (map (group_for versions) order))"
proof -
  have "\<forall>g\<in>set (map (group_for versions) order). good_key (MajorMinor g)"
    using p it by (auto simp add: iteration_order_def dom_build group_for_def parsed_good_key)
  then show ?thesis
    unfolding GroupVersions_alt by (rule group_sort_outer_pure)
qed

lemma GroupVersions_perm:
  assumes p: "\<forall>v\<in>set versions. parsed v"
    and m: "mset versions' = mset versions"
    and c: "\<forall>a\<in>set versions. \<forall>b\<in>set versions. Compare a b = 0 \<longrightarrow> a = b"
    and it: "iteration_order (build_groups versions) order"
    and it': "iteration_order (build_groups versions') order'"
  shows "GroupVersions order' versions' = GroupVersions order versions"
proof -
  let ?le = "\<lambda>g h. \<not> group_gt g h"
  let ?pre = "map (group_for versions) order" and ?pre' = "map (group_for versions) order'"
  have s: "set versions' = set versions"
    using m by (metis set_mset_mset)
  have p': "\<forall>v\<in>set versions'. parsed v"
    using p s by simp
  have "set order' = set order" "distinct order" "distinct order'"
    using it it' s by (simp_all add: iteration_order_def dom_build)
  then have mo: "mset order' = mset order"
    by (simp add: set_eq_iff_mset_eq_distinct)
  have pre': "map (group_for versions') order' = ?pre'"
    using group_for_perm [OF m c] by simp
  have good: "\<forall>g\<in>set ?pre. good_key (MajorMinor g)"
    using p it by (auto simp add: iteration_order_def dom_build group_for_def parsed_good_key)
  have "sort_outer group_gt 0 ?pre = sort_outer group_gt 0 ?pre'"
  proof (rule sorted_wrt_unique [where le = ?le])
    show "sorted_wrt ?le (sort_outer group_gt 0 ?pre)" "sorted_wrt ?le (sort_outer group_gt 0 ?pre')"
      by (rule sorted_sort_outer [OF preorder_group_gt])+
    show "mset (sort_outer group_gt 0 ?pre) = mset (sort_outer group_gt 0 ?pre')"
      by (simp add: mset_sort_outer mo)
    fix g h
    assume "g \<in> set (sort_outer group_gt 0 ?pre)" "h \<in> set (sort_outer group_gt 0 ?pre)"
      and le: "\<not> group_gt g h" "\<not> group_gt h g"
    then have gh: "g \<in> set ?pre" "h \<in> set ?pre"
      by (simp_all add: set_sort_outer)
    then have "MajorMinor g = MajorMinor h"
      using good le by (intro group_gt_antisym) blast+
    moreover have "g = group_for versions (MajorMinor g)" "h = group_for versions (MajorMinor h)"
      using gh by (auto simp add: group_for_def)
    ultimately show "g = h"
      by simp
  qed
  then show ?thesis
    using GroupVersions_result [OF p it] GroupVersions_result [OF p' it'] pre' by simp
qed


section \<open>GroupVersions on parsed versions\<close>

lemma parse_examples:
  "ParseVersion ''go1.22'' = Inr go1_22"
  "ParseVersion ''go1.22.0'' = Inr go1_22_0"
  "ParseVersion ''go1.22.1'' = Inr go1_22_1"
  "ParseVersion ''go1.22rc1'' = Inr go1_22rc1"
  "ParseVersion ''go1.21.0'' = Inr go1_21_0"
  by code_simp+

lemma parsed_examples:
  "parsed go1_22" "parsed go1_22_0" "parsed go1_22_1" "parsed go1_22rc1" "parsed go1_21_0"
  by code_simp+

lemma key_examples:
  "GetMajorMinor go1_22 = ''1.22''" "GetMajorMinor go1_22_0 = ''1.22''"
  "GetMajorMinor go1_22_1 = ''1.22''" "GetMajorMinor go1_22rc1 = ''1.22''"
  "GetMajorMinor go1_21_0 = ''1.21''"
  by code_simp+



lemma group_eval_3: "GroupVersions [''1.22'', ''1.21''] [go1_22_1, go1_22rc1, go1_21_0, go1_22_0] =
  Inr [\<lparr>MajorMinor = ''1.21'', Versions = [go1_21_0]\<rparr>,
       \<lparr>MajorMinor = ''1.22'', Versions = [go1_22rc1, go1_22_0, go1_22_1]\<rparr>]"
  by code_simp

lemma canonical_examples:
  "\<forall>a\<in>set [go1_22_1, go1_22rc1, go1_21_0, go1_22_0]. \<forall>b\<in>set [go1_22_1, go1_22rc1, go1_21_0, go1_22_0]. Compare a b = 0 \<longrightarrow> a = b"
  by (simp add: Compare_def go1_22_1_def go1_22rc1_def go1_21_0_def go1_22_0_def)

lemma order_examples:
  "iteration_order (build_groups [go1_22_1, go1_22rc1, go1_21_0, go1_22_0]) [''1.22'', ''1.21'']"
  "iteration_order (build_groups [go1_22_0, go1_21_0, go1_22rc1, go1_22_1]) [''1.21'', ''1.22'']"
  "iteration_order (build_groups [go1_22, go1_22_0]) [''1.22'']"
  "iteration_order (build_groups [go1_22_0, go1_22]) [''1.22'']"
  by (auto simp add: iteration_order_def dom_build key_examples)




text \<open>
  Claim C8.  The tags \<^verbatim>\<open>go1.22.1\<close>, \<^verbatim>\<open>go1.22rc1\<close>, \<^verbatim>\<open>go1.21.0\<close>, \<^verbatim>\<open>go1.22.0\<close> parse,
  and whatever order the map is iterated in, \<open>GroupVersions\<close> returns the group
  \<^verbatim>\<open>1.21\<close> with \<^verbatim>\<open>go1.21.0\<close>, then the group \<^verbatim>\<open>1.22\<close> with \<^verbatim>\<open>go1.22rc1\<close>,
  \<^verbatim>\<open>go1.22.0\<close>, \<^verbatim>\<open>go1.22.1\<close> in that order.
\<close>

theorem GroupVersions_scenario:
  "ParseVersion ''go1.22.1'' = Inr go1_22_1 \<and> ParseVersion ''go1.22rc1'' = Inr go1_22rc1
   \<and> ParseVersion ''go1.21.0'' = Inr go1_21_0 \<and> ParseVersion ''go1.22.0'' = Inr go1_22_0
   \<and> (\<forall>order. iteration_order (build_groups [go1_22_1, go1_22rc1, go1_21_0, go1_22_0]) order \<longrightarrow>
        GroupVersions order [go1_22_1, go1_22rc1, go1_21_0, go1_22_0]
          = Inr [\<lparr>MajorMinor = ''1.21'', Versions = [go1_21_0]\<rparr>,
                 \<lparr>MajorMinor = ''1.22'', Versions = [go1_22rc1, go1_22_0, go1_22_1]\<rparr>])"
proof -
  let ?vs = "[go1_22_1, go1_22rc1, go1_21_0, go1_22_0]"
  have p: "\<forall>v\<in>set ?vs. parsed v"
    by (simp add: parsed_examples)
  have "GroupVersions order ?vs
          = Inr [\<lparr>MajorMinor = ''1.21'', Versions = [go1_21_0]\<rparr>,
                 \<lparr>MajorMinor = ''1.22'', Versions = [go1_22rc1, go1_22_0, go1_22_1]\<rparr>]"
    if "iteration_order (build_groups ?vs) order" for order
    using GroupVersions_perm [OF p refl canonical_examples order_examples(1) that] group_eval_3
    by simp
  then show ?thesis
    by (simp add: parse_examples)
qed

theorem GroupVersions_scenario_witness:
  "iteration_order (build_groups [go1_22_1, go1_22rc1, go1_21_0, go1_22_0]) [''1.21'', ''1.22'']
   \<and> GroupVersions [''1.21'', ''1.22''] [go1_22_1, go1_22rc1, go1_21_0, go1_22_0]
        = Inr [\<lparr>MajorMinor = ''1.21'', Versions = [go1_21_0]\<rparr>,
               \<lparr>MajorMinor = ''1.22'', Versions = [go1_22rc1, go1_22_0, go1_22_1]\<rparr>]"
proof -
  have o: "iteration_order (build_groups [go1_22_1, go1_22rc1, go1_21_0, go1_22_0]) [''1.21'', ''1.22'']"
    by (auto simp add: iteration_order_def dom_build key_examples)
  from GroupVersions_scenario have "\<forall>order. iteration_order (build_groups [go1_22_1, go1_22rc1, go1_21_0, go1_22_0]) order \<longrightarrow>
        GroupVersions order [go1_22_1, go1_22rc1, go1_21_0, go1_22_0]
          = Inr [\<lparr>MajorMinor = ''1.21'', Versions = [go1_21_0]\<rparr>,
                 \<lparr>MajorMinor = ''1.22'', Versions = [go1_22rc1, go1_22_0, go1_22_1]\<rparr>]"
    by (rule conjunct2 [OF conjunct2 [OF conjunct2 [OF conjunct2]]])
  with o show ?thesis
    by blast
qed

section \<open>Properties of the tag retrieval\<close>












section \<open>FetchTags against example endpoints\<close>

lemma parse_more_examples:
  "ParseVersion ''go1.10'' = Inr go1_10"
  "ParseVersion ''go1.9'' = Inr go1_9"
  "ParseVersion ''go1.21.5'' = Inr go1_21_5"
  "ParseVersion ''release.r60'' = Inl (InvalidFormat ''release.r60'')"
  "ParseVersion ''golatest'' = Inl (InvalidFormat ''golatest'')"
  by code_simp+

lemma normalize_examples:
  "NormalizeVersion ''go1.10'' = ''go1.10''"
  "NormalizeVersion ''go1.22'' = ''go1.22''"
  "NormalizeVersion ''latest'' = ''golatest''"
  by code_simp+

lemma options_examples:
  "with_default (apply_options []) = \<lparr>MinVersion = ''go1.10'', MinYear = 0, AllVersions = False\<rparr>"
  "with_default (apply_options [WithMinVersion ''go1.22'']) =
     \<lparr>MinVersion = ''go1.22'', MinYear = 0, AllVersions = False\<rparr>"
  "with_default (apply_options [WithMinVersion ''go1.22'', WithMinYear 2016]) =
     \<lparr>MinVersion = ''go1.22'', MinYear = 2016, AllVersions = False\<rparr>"
  "apply_options [WithMinVersion ''latest''] =
     \<lparr>MinVersion = ''latest'', MinYear = 0, AllVersions = False\<rparr>"
  by (simp_all add: with_default_def apply_options_def WithMinVersion_def WithMinYear_def
      DefaultMinVersion_def)










lemma with_default_fields [simp]:
  "AllVersions (with_default opts) = AllVersions opts" "MinYear (with_default opts) = MinYear opts"
  by (simp_all add: with_default_def)

lemma with_default_MinVersion:
  "\<not> AllVersions opts \<Longrightarrow>
   MinVersion (with_default opts) = (if MinVersion opts = [] then DefaultMinVersion else MinVersion opts)"
  by (simp add: with_default_def)



text \<open>
  Claim C7.  With \<open>AllVersions\<close> not set, when the minimum version in force (the
  caller's, or \<open>DefaultMinVersion\<close> when the caller gave none) does not parse after
  \<open>NormalizeVersion\<close>, \<open>FetchTags\<close> returns no tags, the error that names the string and
  the parse error, and has made no request.  (\<open>DefaultMinVersion\<close> itself parses.)
\<close>

theorem FetchTags_invalid_min_version:
  "(\<not> AllVersions (apply_options options)
      \<and> ParseVersion (NormalizeVersion
           (if MinVersion (apply_options options) = [] then DefaultMinVersion
            else MinVersion (apply_options options))) = Inl parseErr \<longrightarrow>
    FetchTags e ex options =
      Some \<lparr>tags = [],
            err = Some (InvalidMinVersion
                    (if MinVersion (apply_options options) = [] then DefaultMinVersion
                     else MinVersion (apply_options options)) parseErr),
            requests = []\<rparr>)
   \<and> ParseVersion (NormalizeVersion DefaultMinVersion) = Inr go1_10"
proof (intro conjI impI)
  let ?mv = "if MinVersion (apply_options options) = [] then DefaultMinVersion
            else MinVersion (apply_options options)"
  assume a: "\<not> AllVersions (apply_options options) \<and> ParseVersion (NormalizeVersion ?mv) = Inl parseErr"
  then have mv: "MinVersion (with_default (apply_options options)) = ?mv"
    by (simp add: with_default_MinVersion)
  have "?mv \<noteq> []"
    by (simp add: DefaultMinVersion_def)
  then have "min_version_of (with_default (apply_options options)) = Inl (InvalidMinVersion ?mv parseErr)"
    using a unfolding min_version_of_def mv by simp
  then show "FetchTags e ex options =
      Some \<lparr>tags = [], err = Some (InvalidMinVersion ?mv parseErr), requests = []\<rparr>"
    by (simp add: FetchTags_def)
next
  show "ParseVersion (NormalizeVersion DefaultMinVersion) = Inr go1_10"
    by (simp add: DefaultMinVersion_def normalize_examples parse_more_examples)
qed

theorem FetchTags_invalid_min_version_witness:
  "FetchTags endpoint_two_tags None [WithMinVersion ''latest''] =
     Some \<lparr>tags = [], err = Some (InvalidMinVersion ''latest'' (InvalidFormat ''golatest'')),
           requests = []\<rparr>"
proof -
  have "\<not> AllVersions (apply_options [WithMinVersion ''latest''])"
    "MinVersion (apply_options [WithMinVersion ''latest'']) = ''latest''"
    by (simp_all add: options_examples)
  moreover have "ParseVersion (NormalizeVersion ''latest'') = Inl (InvalidFormat ''golatest'')"
    by (simp add: normalize_examples parse_more_examples)
  ultimately show ?thesis
    using FetchTags_invalid_min_version [of "[WithMinVersion ''latest'']" "InvalidFormat ''golatest''"
        endpoint_two_tags None]
    by simp
qed

end
